theory Spec2Isabelle
  imports
    Complex_Main
    "HOL-Library.Char_ord"
    "HOL-Library.List_Lexorder"
    "HOL-Library.Product_Lexorder"
    "HOL-Library.Multiset"
    "HOL-Library.Sublist"
begin

section \<open>Data model of \<^verbatim>\<open>eqcorrscan/core/match_filter/template.py\<close>\<close>

text \<open>
  Numbers. The processing parameters and the samples are Python floats and ints that are
  only ever compared with \<^verbatim>\<open>==\<close>; they are modelled as rationals (\<^verbatim>\<open>2 == 2.0\<close> holds in
  Python and in the model). The IEEE value not-a-number, the one float that is not equal to
  itself, is not a value of the model. Times (\<^verbatim>\<open>UTCDateTime\<close>) are integers, the count of
  microseconds that \<^verbatim>\<open>UTCDateTime\<close> compares.
\<close>

type_synonym pyfloat = rat

text \<open>
  A channel: \<^verbatim>\<open>obspy.Trace\<close>, with the entries of \<^verbatim>\<open>tr.stats\<close> that the source reads and
  the sample array \<^verbatim>\<open>tr.data\<close>.
\<close>

record trace =
  network :: string
  station :: string
  location :: string
  channel :: string
  starttime :: int
  endtime :: int
  sampling_rate :: pyfloat
  delta :: pyfloat
  npts :: int
  calib :: pyfloat
  data :: "pyfloat list"

text \<open>
  The attribute \<^verbatim>\<open>st\<close> of a template holds \<^verbatim>\<open>None\<close>, a \<^verbatim>\<open>Stream\<close> (a list of
  traces) or, as in the doctest of \<^verbatim>\<open>__eq__\<close> (\<^verbatim>\<open>template_b.st = template_b.st[0]\<close>), a
  single \<^verbatim>\<open>Trace\<close>.
\<close>

datatype waveform = NoStream | Stream "trace list" | SingleTrace trace

text \<open>
  The event metadata: \<^verbatim>\<open>obspy.core.event.Event\<close> with its comments, origins and picks.
  Resource identifiers are the identifiers obspy assigns by itself.
\<close>

record creation_info =
  agency :: string
  author :: string

record comment =
  comment_text :: string
  comment_creation_info :: "creation_info option"

record origin =
  origin_resource_id :: string
  origin_time :: int
  latitude :: pyfloat
  longitude :: pyfloat
  depth :: pyfloat

record pick =
  pick_resource_id :: string
  waveform_id :: string
  pick_time :: int
  phase_hint :: string

record event =
  resource_id :: string
  origins :: "origin list"
  picks :: "pick list"
  comments :: "comment list"

text \<open>
  The template: the attributes that \<^verbatim>\<open>Template.__init__\<close> sets, in the order it sets
  them (the order of \<^verbatim>\<open>self.__dict__.keys()\<close>). An attribute that is \<^verbatim>\<open>None\<close> is
  \<open>None\<close>. The record is polymorphic in what the attribute \<^verbatim>\<open>event\<close> holds: an event
  value (\<open>event template\<close>), or the address of an event object in a store
  (\<open>addr template\<close>), where the aliasing between the caller's event and the template's
  matters.
\<close>

record 'e template =
  name :: "string option"
  st :: waveform
  lowcut :: "pyfloat option"
  highcut :: "pyfloat option"
  samp_rate :: "pyfloat option"
  filt_order :: "int option"
  process_length :: "pyfloat option"
  prepick :: "pyfloat option"
  event :: "'e option"

section \<open>\<^verbatim>\<open>Template.__eq__\<close>\<close>

text \<open>
  \<^verbatim>\<open>Stream.sort()\<close> of obspy, with its default keys: the traces are sorted in place,
  stably, by network, station, location, channel, start time and end time, and the stream
  itself is returned.
\<close>

definition trace_key :: "trace \<Rightarrow> string \<times> string \<times> string \<times> string \<times> int \<times> int" where
  "trace_key tr =
     (network tr, station tr, location tr, channel tr, starttime tr, endtime tr)"

definition stream_sort :: "trace list \<Rightarrow> trace list" where
  "stream_sort trs = sort_key trace_key trs"

text \<open>
  The inner loop of the \<^verbatim>\<open>st\<close> branch, over the keys \<^verbatim>\<open>network, station, channel,
  location, starttime, endtime, sampling_rate, delta, npts, calib\<close>: \<open>False\<close> when the
  source returns \<^verbatim>\<open>False\<close> at one of them.
\<close>

definition stats_match :: "trace \<Rightarrow> trace \<Rightarrow> bool" where
  "stats_match tr oth_tr =
     (if network tr \<noteq> network oth_tr then False
      else if station tr \<noteq> station oth_tr then False
      else if channel tr \<noteq> channel oth_tr then False
      else if location tr \<noteq> location oth_tr then False
      else if starttime tr \<noteq> starttime oth_tr then False
      else if endtime tr \<noteq> endtime oth_tr then False
      else if sampling_rate tr \<noteq> sampling_rate oth_tr then False
      else if delta tr \<noteq> delta oth_tr then False
      else if npts tr \<noteq> npts oth_tr then False
      else if calib tr \<noteq> calib oth_tr then False
      else True)"

text \<open>
  The loop \<^verbatim>\<open>for tr, oth_tr in zip(self.st.sort(), other.st.sort())\<close>, over the list of
  pairs that \<^verbatim>\<open>zip\<close> yields (\<^verbatim>\<open>zip\<close> stops at the end of the shorter stream).
  \<^verbatim>\<open>np.array_equal\<close> of two sample arrays is equality of the two lists.
\<close>

fun traces_match :: "(trace \<times> trace) list \<Rightarrow> bool" where
  "traces_match [] = True"
| "traces_match ((tr, oth_tr) # rest) =
     (if data tr \<noteq> data oth_tr then False
      else if \<not> stats_match tr oth_tr then False
      else traces_match rest)"

text \<open>
  The branch \<^verbatim>\<open>key == 'st'\<close>: \<open>False\<close> when it returns \<^verbatim>\<open>False\<close>, \<open>True\<close> when the
  loop over the keys goes on. When neither attribute is a \<^verbatim>\<open>Stream\<close> no branch of the
  source's \<^verbatim>\<open>if/elif\<close> chain is taken.
\<close>

fun st_match :: "waveform \<Rightarrow> waveform \<Rightarrow> bool" where
  "st_match (Stream trs) (Stream oth_trs) =
     traces_match (zip (stream_sort trs) (stream_sort oth_trs))"
| "st_match (Stream trs) other_st = False"
| "st_match self_st (Stream oth_trs) = False"
| "st_match self_st other_st = True"

text \<open>
  Modelled from the spec: what \<^verbatim>\<open>_test_event_similarity\<close> compares of two origins.
  The helper belongs to \<^verbatim>\<open>eqcorrscan.core.match_filter.helpers\<close>, which this file
  imports and whose source is not at hand. The spec: the comparator "ignores
  source-assigned resource identifiers [...] but compares all other event content".
\<close>

definition origin_similar :: "origin \<Rightarrow> origin \<Rightarrow> bool" where
  "origin_similar o1 o2 =
     (origin_time o1 = origin_time o2 \<and> latitude o1 = latitude o2 \<and>
      longitude o1 = longitude o2 \<and> depth o1 = depth o2)"

text \<open>
  Modelled from the spec: what \<^verbatim>\<open>_test_event_similarity\<close> compares of two picks, every
  field but the resource identifier.
\<close>

definition pick_similar :: "pick \<Rightarrow> pick \<Rightarrow> bool" where
  "pick_similar p1 p2 =
     (waveform_id p1 = waveform_id p2 \<and> pick_time p1 = pick_time p2 \<and>
      phase_hint p1 = phase_hint p2)"

text \<open>
  Modelled from the spec: \<^verbatim>\<open>_test_event_similarity(event_1, event_2)\<close> of
  \<^verbatim>\<open>eqcorrscan.core.match_filter.helpers\<close>, missing from the sources at hand: all the
  content of the two events but the resource identifiers is compared. The optional shallow
  mode is never requested by \<^verbatim>\<open>==\<close>, \<^verbatim>\<open>!=\<close> or \<^verbatim>\<open>in\<close> and is not modelled.
\<close>

definition test_event_similarity :: "event \<Rightarrow> event \<Rightarrow> bool" where
  "test_event_similarity event_1 event_2 =
     (list_all2 origin_similar (origins event_1) (origins event_2) \<and>
      list_all2 pick_similar (picks event_1) (picks event_2) \<and>
      comments event_1 = comments event_2)"

text \<open>The branch \<^verbatim>\<open>key == 'event'\<close>, read like \<open>st_match\<close>.\<close>

fun event_match :: "event option \<Rightarrow> event option \<Rightarrow> bool" where
  "event_match (Some e1) (Some e2) = test_event_similarity e1 e2"
| "event_match (Some e1) None = False"
| "event_match None (Some e2) = False"
| "event_match None None = True"

text \<open>
  \<^verbatim>\<open>Template.__eq__(self, other)\<close> with its default keyword arguments, as \<^verbatim>\<open>==\<close>,
  \<^verbatim>\<open>!=\<close> and \<^verbatim>\<open>in\<close> call it: the loop over \<^verbatim>\<open>self.__dict__.keys()\<close>, one test for each
  key in the order of the keys. The source has no \<^verbatim>\<open>raise\<close> on this path, and two
  templates have the same keys, so the result is a truth value. Sorting the two streams in
  place changes no result of \<^verbatim>\<open>__eq__\<close> (\<open>st_match_sorted\<close> below) and is not carried as a
  state change.
\<close>

definition eq_template :: "event template \<Rightarrow> event template \<Rightarrow> bool" where
  "eq_template self other =
     (if \<not> name self = name other then False
      else if \<not> st_match (st self) (st other) then False
      else if \<not> lowcut self = lowcut other then False
      else if \<not> highcut self = highcut other then False
      else if \<not> samp_rate self = samp_rate other then False
      else if \<not> filt_order self = filt_order other then False
      else if \<not> process_length self = process_length other then False
      else if \<not> prepick self = prepick other then False
      else if \<not> event_match (event self) (event other) then False
      else True)"

text \<open>\<^verbatim>\<open>Template.__ne__\<close>: \<^verbatim>\<open>not self.__eq__(other)\<close>.\<close>

definition ne_template :: "event template \<Rightarrow> event template \<Rightarrow> bool" where
  "ne_template self other = (\<not> eq_template self other)"

section \<open>\<^verbatim>\<open>Template.same_processing\<close>\<close>

text \<open>
  The loop over \<^verbatim>\<open>self.__dict__.keys()\<close> that skips \<^verbatim>\<open>name, st, prepick, event\<close> (and
  \<^verbatim>\<open>template_info\<close>, which no template has): the five keys left, in their order.
\<close>

definition same_processing :: "'e template \<Rightarrow> 'e template \<Rightarrow> bool" where
  "same_processing self other =
     (if \<not> lowcut self = lowcut other then False
      else if \<not> highcut self = highcut other then False
      else if \<not> samp_rate self = samp_rate other then False
      else if \<not> filt_order self = filt_order other then False
      else if \<not> process_length self = process_length other then False
      else True)"

section \<open>\<^verbatim>\<open>Template.__init__\<close>, \<^verbatim>\<open>Template.copy\<close> and \<^verbatim>\<open>Template.construct\<close>\<close>

text \<open>The exceptions that the source raises.\<close>

datatype error =
  ValueError | MatchFilterError | NotImplementedError | IndexError | TemplateGenError

text \<open>
  \<^verbatim>\<open>re.match(r"^[-A-Za-z_0-9]+$", name)\<close>. Without the multi-line flag \<^verbatim>\<open>$\<close> matches
  at the end of the string and also just before a line feed that ends the string.
\<close>

definition name_char :: "char \<Rightarrow> bool" where
  "name_char c =
     (c = CHR ''-'' \<or> (CHR ''A'' \<le> c \<and> c \<le> CHR ''Z'') \<or> (CHR ''a'' \<le> c \<and> c \<le> CHR ''z'') \<or>
      c = CHR ''_'' \<or> (CHR ''0'' \<le> c \<and> c \<le> CHR ''9''))"

definition name_regex_match :: "string \<Rightarrow> bool" where
  "name_regex_match s =
     (let body = (if s \<noteq> [] \<and> last s = CHR 0x0A then butlast s else s)
      in body \<noteq> [] \<and> list_all name_char body)"

text \<open>
  Event objects are mutable and shared by reference: a store maps the address of an event
  object to its value. Every reference of the Python program denotes an object, so the
  store is total.
\<close>

type_synonym addr = nat

type_synonym store = "addr \<Rightarrow> event"

text \<open>The text of the marker comment, \<^verbatim>\<open>"eqcorrscan_template_" + temp_name\<close>.\<close>

definition temp_name_of :: "string option \<Rightarrow> string" where
  "temp_name_of nm = (case nm of None \<Rightarrow> ''unnamed'' | Some n \<Rightarrow> n)"

definition marker_text :: "string option \<Rightarrow> string" where
  "marker_text nm = ''eqcorrscan_template_'' @ temp_name_of nm"

text \<open>
  The \<^verbatim>\<open>if event is not None\<close> block of \<^verbatim>\<open>__init__\<close> on the event object itself;
  \<open>user\<close> is what \<^verbatim>\<open>getpass.getuser()\<close> returns.
\<close>

definition attach_marker :: "string \<Rightarrow> string option \<Rightarrow> event \<Rightarrow> event" where
  "attach_marker user nm ev =
     (if marker_text nm \<notin> set (map comment_text (comments ev))
      then ev\<lparr>comments := comments ev @
             [\<lparr>comment_text = marker_text nm,
               comment_creation_info = Some \<lparr>agency = ''eqcorrscan'', author = user\<rparr>\<rparr>]\<rparr>
      else ev)"

text \<open>
  The test \<^verbatim>\<open>if st and samp_rate is not None\<close> with its loop over the traces: \<open>True\<close> when
  \<^verbatim>\<open>MatchFilterError\<close> is raised. An empty \<^verbatim>\<open>Stream\<close> is false, as \<^verbatim>\<open>None\<close> is.
\<close>

definition rates_mismatch :: "trace list option \<Rightarrow> pyfloat option \<Rightarrow> bool" where
  "rates_mismatch st_arg samp_rate_arg =
     (case (st_arg, samp_rate_arg) of
        (Some trs, Some r) \<Rightarrow> list_ex (\<lambda>tr. \<not> sampling_rate tr = r) trs
      | _ \<Rightarrow> False)"

text \<open>
  \<^verbatim>\<open>Template.__init__\<close>, with \<^verbatim>\<open>st\<close> of its documented type (a \<^verbatim>\<open>Stream\<close> or
  \<^verbatim>\<open>None\<close>) and \<^verbatim>\<open>event\<close> a reference into the store or \<^verbatim>\<open>None\<close>. It returns the
  exception raised, or the new template with the store as the call leaves it.
\<close>

definition Template_init ::
  "string \<Rightarrow> store \<Rightarrow> string option \<Rightarrow> trace list option \<Rightarrow> pyfloat option \<Rightarrow> pyfloat option \<Rightarrow>
   pyfloat option \<Rightarrow> int option \<Rightarrow> pyfloat option \<Rightarrow> pyfloat option \<Rightarrow> addr option \<Rightarrow>
   error + (addr template \<times> store)" where
  "Template_init user s nm st_arg lowcut_arg highcut_arg samp_rate_arg filt_order_arg
       process_length_arg prepick_arg event_arg =
     (if nm \<noteq> None \<and> \<not> name_regex_match (the nm) then Inl ValueError
      else if rates_mismatch st_arg samp_rate_arg then Inl MatchFilterError
      else
        Inr (\<lparr>name = nm,
              st = (case st_arg of None \<Rightarrow> NoStream | Some trs \<Rightarrow> Stream trs),
              lowcut = lowcut_arg, highcut = highcut_arg, samp_rate = samp_rate_arg,
              filt_order = filt_order_arg, process_length = process_length_arg,
              prepick = prepick_arg, event = event_arg\<rparr>,
             (case event_arg of
                None \<Rightarrow> s
              | Some p \<Rightarrow> s(p := attach_marker user nm (s p)))))"

text \<open>
  A template object with its event read from the store, and \<^verbatim>\<open>__eq__\<close> on two template
  objects.
\<close>

definition deref :: "store \<Rightarrow> addr template \<Rightarrow> event template" where
  "deref s t =
     \<lparr>name = name t, st = st t, lowcut = lowcut t, highcut = highcut t,
      samp_rate = samp_rate t, filt_order = filt_order t,
      process_length = process_length t, prepick = prepick t,
      event = map_option s (event t)\<rparr>"

definition eq_object :: "store \<Rightarrow> addr template \<Rightarrow> addr template \<Rightarrow> bool" where
  "eq_object s self other = eq_template (deref s self) (deref s other)"

text \<open>
  \<^verbatim>\<open>Template.copy\<close>: \<^verbatim>\<open>copy.deepcopy(self)\<close>. The copy of the event is a new object, at
  the address \<open>new\<close> that the allocator hands out, with the value of the original; the
  other attributes are values of the model.
\<close>

definition copy_template :: "addr \<Rightarrow> store \<Rightarrow> addr template \<Rightarrow> addr template \<times> store" where
  "copy_template new s self =
     (case event self of
        None \<Rightarrow> (self, s)
      | Some p \<Rightarrow> (self\<lparr>event := Some new\<rparr>, s(new := s p)))"

text \<open>
  The loop of \<^verbatim>\<open>construct\<close> that drops the traces whose samples are all zero as 16-bit
  floats. \<^verbatim>\<open>Stream.__iter__\<close> iterates over a copy of the list of traces, and
  \<^verbatim>\<open>st.remove(tr)\<close> removes the first trace equal to \<^verbatim>\<open>tr\<close>. The test
  \<^verbatim>\<open>not np.any(tr.data.astype(np.float16))\<close> is numpy's and is taken as \<open>zero16\<close>.
\<close>

definition remove_zero_traces :: "(trace \<Rightarrow> bool) \<Rightarrow> trace list \<Rightarrow> trace list" where
  "remove_zero_traces zero16 trs =
     fold (\<lambda>tr cur. if zero16 tr then remove1 tr cur else cur) trs trs"

text \<open>
  \<^verbatim>\<open>Template.construct\<close>. The call of \<^verbatim>\<open>template_gen.template_gen\<close>, which builds the
  waveforms outside this file, is taken by its outcome \<open>gen\<close>: the exception it raises or
  the three lists it returns. The method mutates \<^verbatim>\<open>self\<close>: the result is the template
  as the call leaves it, with the exception raised, if any.
\<close>

definition construct ::
  "(trace \<Rightarrow> bool) \<Rightarrow> (error + trace list list \<times> 'e list \<times> pyfloat list) \<Rightarrow> 'e template \<Rightarrow>
   string \<Rightarrow> string \<Rightarrow> pyfloat option \<Rightarrow> pyfloat option \<Rightarrow> pyfloat option \<Rightarrow> int option \<Rightarrow>
   pyfloat option \<Rightarrow> 'e template \<times> error option" where
  "construct zero16 gen self method nm lowcut_arg highcut_arg samp_rate_arg filt_order_arg
       prepick_arg =
     (if method \<in> set [''from_meta_file'', ''from_seishub'', ''from_client'',
                       ''multi_template_gen'']
      then (self, Some NotImplementedError)
      else
        (case gen of
           Inl e \<Rightarrow> (self, Some e)
         | Inr (streams, events, process_lengths) \<Rightarrow>
             (let self1 = self\<lparr>name := Some nm\<rparr> in
              (case streams of
                 [] \<Rightarrow> (self1, Some IndexError)
               | st0 # _ \<Rightarrow>
                 (case events of
                    [] \<Rightarrow> (self1, Some IndexError)
                  | event0 # _ \<Rightarrow>
                    (case process_lengths of
                       [] \<Rightarrow> (self1, Some IndexError)
                     | process_length0 # _ \<Rightarrow>
                         (self1\<lparr>st := Stream (remove_zero_traces zero16 st0),
                                 lowcut := lowcut_arg, highcut := highcut_arg,
                                 filt_order := filt_order_arg, samp_rate := samp_rate_arg,
                                 process_length := Some process_length0,
                                 prepick := prepick_arg, event := Some event0\<rparr>,
                          None)))))))"

section \<open>\<^verbatim>\<open>group_templates\<close>\<close>

text \<open>
  \<^verbatim>\<open>master in group\<close>: Python's list membership, \<^verbatim>\<open>any(master is e or master == e for e
  in group)\<close>. An object is equal to itself under \<open>eq_template\<close> (\<open>eq_template_refl\<close>
  below), so the identity test adds nothing to the equality test; and \<open>eq_template\<close> is
  symmetric (\<open>eq_template_sym\<close>), so it does not matter which operand the interpreter
  puts first.
\<close>

definition template_in :: "event template \<Rightarrow> event template list \<Rightarrow> bool" where
  "template_in master grp = list_ex (\<lambda>e. eq_template master e) grp"

text \<open>
  The \<^verbatim>\<open>for group in template_groups: ... break\<close> loop: \<open>True\<close> when it breaks, \<open>False\<close>
  when its \<^verbatim>\<open>else\<close> clause runs.
\<close>

definition in_some_group :: "event template \<Rightarrow> event template list list \<Rightarrow> bool" where
  "in_some_group master template_groups = list_ex (template_in master) template_groups"

text \<open>The \<^verbatim>\<open>else\<close> clause: the new group of a master.\<close>

definition new_group :: "event template list \<Rightarrow> event template \<Rightarrow> event template list" where
  "new_group templates master =
     master # filter (\<lambda>slave. same_processing master slave \<and> ne_template master slave) templates"

text \<open>
  The loop \<^verbatim>\<open>for master in templates\<close>, on the masters still to come and the groups built
  so far.
\<close>

fun group_loop ::
  "event template list \<Rightarrow> event template list \<Rightarrow> event template list list \<Rightarrow>
   event template list list" where
  "group_loop templates [] template_groups = template_groups"
| "group_loop templates (master # masters) template_groups =
     (if in_some_group master template_groups
      then group_loop templates masters template_groups
      else group_loop templates masters (template_groups @ [new_group templates master]))"

text \<open>
  The last loop, \<^verbatim>\<open>for group in template_groups: if len(group) == 0:
  template_groups.remove(group)\<close>. It removes from the list it iterates over: the iterator
  is the index \<open>i\<close>, which moves on after a removal too, and \<^verbatim>\<open>remove\<close> deletes the first
  list equal to the empty \<^verbatim>\<open>group\<close>.
\<close>

function remove_empty_groups :: "nat \<Rightarrow> 'a list list \<Rightarrow> 'a list list" where
  "remove_empty_groups i template_groups =
     (if i < length template_groups
      then (if length (template_groups ! i) = 0
            then remove_empty_groups (Suc i) (remove1 (template_groups ! i) template_groups)
            else remove_empty_groups (Suc i) template_groups)
      else template_groups)"
  by pat_completeness auto
termination
  by (relation "measure (\<lambda>(i, gs). length gs - i)") (auto simp: length_remove1)

declare remove_empty_groups.simps [simp del]

definition group_templates :: "event template list \<Rightarrow> event template list list" where
  "group_templates templates = remove_empty_groups 0 (group_loop templates templates [])"

section \<open>Notions used to state and prove the properties\<close>

text \<open>
  The values that \<open>same_processing\<close> compares: two templates have the same processing
  exactly when they have the same key (\<open>same_processing_key\<close> below).
\<close>

definition processing_key ::
  "'e template \<Rightarrow> pyfloat option \<times> pyfloat option \<times> pyfloat option \<times> int option \<times> pyfloat option" where
  "processing_key t = (lowcut t, highcut t, samp_rate t, filt_order t, process_length t)"

text \<open>
  The templates of a list whose key is not in \<open>seen\<close> and does not occur earlier in the
  list: the first template of every processing class, in the order of the list.
\<close>

fun first_of_class ::
  "(pyfloat option \<times> pyfloat option \<times> pyfloat option \<times> int option \<times> pyfloat option) set \<Rightarrow>
   'e template list \<Rightarrow> 'e template list" where
  "first_of_class seen [] = []"
| "first_of_class seen (m # ms) =
     (if processing_key m \<in> seen then first_of_class seen ms
      else m # first_of_class (insert (processing_key m) seen) ms)"

definition masters :: "'e template list \<Rightarrow> 'e template list" where
  "masters ts = first_of_class {} ts"

text \<open>The test of the inner loop of \<open>group_templates\<close>, as a predicate of its own.\<close>

definition slave_of :: "event template \<Rightarrow> event template \<Rightarrow> bool" where
  "slave_of master slave = (same_processing master slave \<and> ne_template master slave)"

text \<open>
  A caller that constructs one template after the other, all with the same name and the
  same event object \<open>p\<close>; the other arguments of every call are free. The result is the
  first exception raised, or the store after the last call.
\<close>

type_synonym init_args =
  "trace list option \<times> pyfloat option \<times> pyfloat option \<times> pyfloat option \<times> int option \<times>
   pyfloat option \<times> pyfloat option"

fun attach_calls ::
  "string \<Rightarrow> string option \<Rightarrow> addr \<Rightarrow> init_args list \<Rightarrow> store \<Rightarrow> error + store" where
  "attach_calls user nm p [] s = Inr s"
| "attach_calls user nm p ((st_arg, lowcut_arg, highcut_arg, samp_rate_arg, filt_order_arg,
       process_length_arg, prepick_arg) # calls) s =
     (case Template_init user s nm st_arg lowcut_arg highcut_arg samp_rate_arg filt_order_arg
             process_length_arg prepick_arg (Some p) of
        Inl e \<Rightarrow> Inl e
      | Inr (t, s') \<Rightarrow> attach_calls user nm p calls s')"

section \<open>Concrete inputs\<close>

text \<open>
  The templates of the spec's example: \<open>template_A\<close> and \<open>template_B\<close> share lowcut 2,
  highcut 8, sampling rate 100, filter order 4 and process length 3600; \<open>template_C\<close> has
  highcut 10.
\<close>

definition template_A :: "event template" where
  "template_A =
     \<lparr>name = Some ''A'', st = NoStream, lowcut = Some 2, highcut = Some 8,
      samp_rate = Some 100, filt_order = Some 4, process_length = Some 3600,
      prepick = Some (1 / 2), event = None\<rparr>"

definition template_B :: "event template" where
  "template_B = template_A\<lparr>name := Some ''B''\<rparr>"

definition template_C :: "event template" where
  "template_C = template_A\<lparr>name := Some ''C'', highcut := Some 10\<rparr>"

text \<open>Two channels of one station, an event, a store that holds it, and templates on them.\<close>

definition trace_N :: trace where
  "trace_N =
     \<lparr>network = ''NZ'', station = ''FOZ'', location = ''10'', channel = ''HHN'',
      starttime = 0, endtime = 30000, sampling_rate = 100, delta = 1 / 100, npts = 4,
      calib = 1, data = [1, - 2, 3, 0]\<rparr>"

definition trace_Z :: trace where
  "trace_Z = trace_N\<lparr>channel := ''HHZ'', data := [0, 5, 1, 1]\<rparr>"

definition event_0 :: event where
  "event_0 =
     \<lparr>resource_id = ''smi:local/event/0'',
      origins = [\<lparr>origin_resource_id = ''smi:local/origin/0'', origin_time = 0,
                  latitude = - 43, longitude = 170, depth = 5000\<rparr>],
      picks = [\<lparr>pick_resource_id = ''smi:local/pick/0'', waveform_id = ''NZ.FOZ.10.HHN'',
                pick_time = 500, phase_hint = ''P''\<rparr>],
      comments = []\<rparr>"

definition store_0 :: store where
  "store_0 = (\<lambda>p. event_0)"

definition object_A :: "addr template" where
  "object_A =
     \<lparr>name = Some ''A'', st = Stream [trace_N], lowcut = Some 2, highcut = Some 8,
      samp_rate = Some 100, filt_order = Some 4, process_length = Some 3600,
      prepick = Some (1 / 2), event = Some 7\<rparr>"

definition template_a :: "event template" where
  "template_a =
     \<lparr>name = Some ''a'', st = Stream [trace_N], lowcut = Some 2, highcut = Some 8,
      samp_rate = Some 100, filt_order = Some 4, process_length = Some 3600,
      prepick = Some (1 / 2), event = Some event_0\<rparr>"

text \<open>\<^verbatim>\<open>Template()\<close>: every attribute is \<^verbatim>\<open>None\<close>.\<close>

definition empty_template :: "event template" where
  "empty_template =
     \<lparr>name = None, st = NoStream, lowcut = None, highcut = None, samp_rate = None,
      filt_order = None, process_length = None, prepick = None, event = None\<rparr>"

section \<open>Equality and same processing\<close>

lemma stats_match_refl: "stats_match tr tr"
  by (simp add: stats_match_def)

lemma stats_match_sym: "stats_match tr oth = stats_match oth tr"
  by (auto simp: stats_match_def)

lemma traces_match_refl: "traces_match (zip trs trs)"
  by (induction trs) (simp_all add: stats_match_refl)

lemma traces_match_sym: "traces_match (zip xs ys) = traces_match (zip ys xs)"
proof (induction xs arbitrary: ys)
  case Nil
  then show ?case by simp
next
  case (Cons x xs)
  show ?case
  proof (cases ys)
    case Nil
    then show ?thesis by simp
  next
    case (Cons y ys')
    have "stats_match x y = stats_match y x" by (rule stats_match_sym)
    with Cons Cons.IH [of ys'] show ?thesis by auto
  qed
qed

lemma st_match_refl: "st_match w w"
  by (cases w) (simp_all add: traces_match_refl)

lemma st_match_sym: "st_match w v = st_match v w"
  by (cases w; cases v) (simp_all add: traces_match_sym)

text \<open>
  \<^verbatim>\<open>__eq__\<close> sorts the two streams in place. A sorted stream compares as the unsorted
  one did, so the reordering is not observable through \<^verbatim>\<open>__eq__\<close>.
\<close>

lemma stream_sort_idem: "stream_sort (stream_sort trs) = stream_sort trs"
  by (simp add: stream_sort_def sort_key_id_if_sorted)

lemma st_match_sorted:
  "st_match (Stream (stream_sort trs)) w = st_match (Stream trs) w"
  "st_match w (Stream (stream_sort trs)) = st_match w (Stream trs)"
  by (cases w; simp add: stream_sort_idem)+

lemma origin_similar_refl: "origin_similar a a"
  by (simp add: origin_similar_def)

lemma origin_similar_sym: "origin_similar a b = origin_similar b a"
  by (auto simp: origin_similar_def)

lemma pick_similar_refl: "pick_similar a a"
  by (simp add: pick_similar_def)

lemma pick_similar_sym: "pick_similar a b = pick_similar b a"
  by (auto simp: pick_similar_def)

lemma test_event_similarity_refl: "test_event_similarity e e"
  by (simp add: test_event_similarity_def list_all2_refl origin_similar_refl pick_similar_refl)

lemma list_all2_sym_eq:
  assumes "\<And>a b. P a b = P b a"
  shows "list_all2 P xs ys = list_all2 P ys xs"
  using assms by (metis list_all2_conv_all_nth)

lemma test_event_similarity_sym: "test_event_similarity e1 e2 = test_event_similarity e2 e1"
  unfolding test_event_similarity_def
  using list_all2_sym_eq [of origin_similar, OF origin_similar_sym]
    list_all2_sym_eq [of pick_similar, OF pick_similar_sym]
  by (metis (full_types))

lemma event_match_refl: "event_match e e"
  by (cases e) (simp_all add: test_event_similarity_refl)

lemma event_match_sym: "event_match e1 e2 = event_match e2 e1"
  by (cases e1; cases e2) (simp_all add: test_event_similarity_sym)

lemma eq_template_refl: "eq_template a a"
  by (simp add: eq_template_def st_match_refl event_match_refl)

lemma eq_template_sym: "eq_template a b = eq_template b a"
  unfolding eq_template_def
  using st_match_sym [of "st a" "st b"] event_match_sym [of "event a" "event b"]
  by (auto simp: eq_commute)

lemma same_processing_key: "same_processing a b = (processing_key a = processing_key b)"
  by (auto simp: same_processing_def processing_key_def)

lemma same_processing_fun:
  "same_processing m = (\<lambda>s. processing_key m = processing_key s)"
  by (simp add: fun_eq_iff same_processing_key)

lemma same_processing_refl: "same_processing a a"
  by (simp add: same_processing_key)

lemma same_processing_sym: "same_processing a b = same_processing b a"
  by (auto simp: same_processing_key)

lemma eq_template_same_processing: "eq_template a b \<Longrightarrow> same_processing a b"
  by (simp add: eq_template_def same_processing_def split: if_splits)

lemma deref_copy:
  "deref (snd (copy_template new s T)) (fst (copy_template new s T)) =
   deref (snd (copy_template new s T)) T"
  by (cases "event T") (auto simp: copy_template_def deref_def)

text \<open>
  Claim C7. A template is equal to its deep copy: with \<open>C\<close> the copy of the template
  object \<open>T\<close> and \<open>s'\<close> the store after the copy, \<^verbatim>\<open>T == C\<close> holds in \<open>s'\<close>. Equality and
  \<open>same_processing\<close> are reflexive and symmetric on all templates of the model, whose
  numbers are rationals (no not-a-number). Both are total: on templates the source has no
  raising path, and the model returns a truth value for every pair.
\<close>

theorem eq_template_copy_refl_sym:
  "eq_object (snd (copy_template new s T)) T (fst (copy_template new s T)) \<and>
   eq_template a a \<and> eq_template a b = eq_template b a \<and>
   same_processing a a \<and> same_processing a b = same_processing b a"
  using eq_template_sym [of a b] same_processing_sym [of a b]
  by (simp add: eq_object_def deref_copy eq_template_refl same_processing_refl)

text \<open>
  Claim C3. On a copy of a template, new values for \<^verbatim>\<open>name\<close>, \<^verbatim>\<open>st\<close>, \<^verbatim>\<open>prepick\<close> and
  \<^verbatim>\<open>event\<close> leave \<open>same_processing\<close> with the original true; a different value for any one
  of \<^verbatim>\<open>lowcut\<close>, \<^verbatim>\<open>highcut\<close>, \<^verbatim>\<open>samp_rate\<close>, \<^verbatim>\<open>filt_order\<close> and \<^verbatim>\<open>process_length\<close>
  makes it false.
\<close>

theorem same_processing_fields:
  "same_processing T ((fst (copy_template new s T))\<lparr>name := n, st := w, prepick := p, event := e\<rparr>) \<and>
   (v1 \<noteq> lowcut T \<longrightarrow> \<not> same_processing T ((fst (copy_template new s T))\<lparr>lowcut := v1\<rparr>)) \<and>
   (v2 \<noteq> highcut T \<longrightarrow> \<not> same_processing T ((fst (copy_template new s T))\<lparr>highcut := v2\<rparr>)) \<and>
   (v3 \<noteq> samp_rate T \<longrightarrow> \<not> same_processing T ((fst (copy_template new s T))\<lparr>samp_rate := v3\<rparr>)) \<and>
   (v4 \<noteq> filt_order T \<longrightarrow> \<not> same_processing T ((fst (copy_template new s T))\<lparr>filt_order := v4\<rparr>)) \<and>
   (v5 \<noteq> process_length T \<longrightarrow>
      \<not> same_processing T ((fst (copy_template new s T))\<lparr>process_length := v5\<rparr>))"
  by (cases "event T") (auto simp: copy_template_def same_processing_def)

theorem same_processing_fields_witness:
  "same_processing object_A
     ((fst (copy_template 8 store_0 object_A))\<lparr>name := Some ''B'', st := NoStream,
        prepick := Some 1, event := None\<rparr>) \<and>
   \<not> same_processing object_A ((fst (copy_template 8 store_0 object_A))\<lparr>lowcut := Some 5\<rparr>) \<and>
   \<not> same_processing object_A ((fst (copy_template 8 store_0 object_A))\<lparr>highcut := None\<rparr>) \<and>
   \<not> same_processing object_A ((fst (copy_template 8 store_0 object_A))\<lparr>samp_rate := Some 50\<rparr>) \<and>
   \<not> same_processing object_A ((fst (copy_template 8 store_0 object_A))\<lparr>filt_order := Some 3\<rparr>) \<and>
   \<not> same_processing object_A
       ((fst (copy_template 8 store_0 object_A))\<lparr>process_length := Some 86400\<rparr>)"
  using same_processing_fields [where T = object_A and new = 8 and s = store_0
      and n = "Some ''B''" and w = NoStream and p = "Some 1" and e = None and ?v1.0 = "Some 5"
      and ?v2.0 = None and ?v3.0 = "Some 50" and ?v4.0 = "Some 3" and ?v5.0 = "Some 86400"]
  by (simp add: object_A_def)

text \<open>
  Claim C2. The claim: a template whose \<^verbatim>\<open>st\<close> is a single \<^verbatim>\<open>Trace\<close> is unequal to one
  whose \<^verbatim>\<open>st\<close> is \<^verbatim>\<open>None\<close> or an empty stream, all other attributes agreeing. The code
  at such an input: against the empty \<^verbatim>\<open>Stream\<close> the result is \<^verbatim>\<open>False\<close>, but against
  \<^verbatim>\<open>None\<close> neither attribute is a \<^verbatim>\<open>Stream\<close>, no branch of the \<^verbatim>\<open>st\<close> test is taken,
  and \<^verbatim>\<open>__eq__\<close> returns \<^verbatim>\<open>True\<close>.
\<close>

theorem eq_trace_none:
  "eq_template (template_a\<lparr>st := SingleTrace trace_N\<rparr>) (template_a\<lparr>st := NoStream\<rparr>) \<and>
   \<not> eq_template (template_a\<lparr>st := SingleTrace trace_N\<rparr>) (template_a\<lparr>st := Stream []\<rparr>)"
  by (simp add: eq_template_def event_match_refl)

text \<open>
  Claim C6. The claim: two templates whose sorted streams hold different sets of channels
  are unequal, in particular when one stream is the other plus one more channel. The code at
  such an input: the stream of \<open>template_a\<close> is the channel \<open>trace_N\<close>, the other stream
  holds \<open>trace_N\<close> and \<open>trace_Z\<close>; \<^verbatim>\<open>zip\<close> stops after the one pair of the sorted streams,
  which agrees, and \<^verbatim>\<open>__eq__\<close> returns \<^verbatim>\<open>True\<close>.
\<close>

theorem eq_extra_channel:
  "eq_template template_a (template_a\<lparr>st := Stream [trace_Z, trace_N]\<rparr>) \<and>
   stream_sort [trace_Z, trace_N] = [trace_N, trace_Z] \<and>
   st template_a = Stream [trace_N]"
  by (simp add: eq_template_def event_match_refl template_a_def stream_sort_def trace_key_def
      trace_N_def trace_Z_def stats_match_def)

section \<open>Construction\<close>

text \<open>
  Claim C10. A construction that succeeds on an event object \<open>p\<close> without the marker
  comment keeps the reference \<open>p\<close> itself in the template and appends the marker comment to
  the object at \<open>p\<close> in the caller's store: no copy is made. Every other object of the store
  and the other fields of the event are unchanged. Without a name the text of the marker
  ends in \<^verbatim>\<open>unnamed\<close>.
\<close>

theorem init_mutates_event:
  assumes "Template_init user s nm st_arg lowcut_arg highcut_arg samp_rate_arg filt_order_arg
             process_length_arg prepick_arg (Some p) = Inr (t, s')"
    and "marker_text nm \<notin> set (map comment_text (comments (s p)))"
  shows "event t = Some p \<and>
         s' p = (s p)\<lparr>comments := comments (s p) @
                  [\<lparr>comment_text = marker_text nm,
                    comment_creation_info = Some \<lparr>agency = ''eqcorrscan'', author = user\<rparr>\<rparr>]\<rparr> \<and>
         (\<forall>q. q \<noteq> p \<longrightarrow> s' q = s q) \<and>
         resource_id (s' p) = resource_id (s p) \<and> origins (s' p) = origins (s p) \<and>
         picks (s' p) = picks (s p) \<and>
         marker_text None = ''eqcorrscan_template_unnamed''"
  using assms
  by (auto simp: Template_init_def attach_marker_def marker_text_def temp_name_of_def
      split: if_splits)

theorem init_mutates_event_witness:
  "Template_init ''user'' store_0 None (Some [trace_N]) (Some 2) (Some 8) (Some 100) (Some 4)
     (Some 3600) (Some (1 / 2)) (Some 7) =
   Inr (\<lparr>name = None, st = Stream [trace_N], lowcut = Some 2, highcut = Some 8,
         samp_rate = Some 100, filt_order = Some 4, process_length = Some 3600,
         prepick = Some (1 / 2), event = Some 7\<rparr>,
        store_0 (7 := event_0\<lparr>comments :=
          [\<lparr>comment_text = ''eqcorrscan_template_unnamed'',
            comment_creation_info = Some \<lparr>agency = ''eqcorrscan'', author = ''user''\<rparr>\<rparr>]\<rparr>)) \<and>
   comments (store_0 7) = [] \<and>
   (store_0 (7 := event_0\<lparr>comments :=
          [\<lparr>comment_text = ''eqcorrscan_template_unnamed'',
            comment_creation_info = Some \<lparr>agency = ''eqcorrscan'', author = ''user''\<rparr>\<rparr>]\<rparr>)) 7 =
     (store_0 7)\<lparr>comments := comments (store_0 7) @
          [\<lparr>comment_text = marker_text None,
            comment_creation_info = Some \<lparr>agency = ''eqcorrscan'', author = ''user''\<rparr>\<rparr>]\<rparr>"
proof -
  let ?s' = "store_0 (7 := event_0\<lparr>comments :=
          [\<lparr>comment_text = ''eqcorrscan_template_unnamed'',
            comment_creation_info = Some \<lparr>agency = ''eqcorrscan'', author = ''user''\<rparr>\<rparr>]\<rparr>)"
  let ?t = "\<lparr>name = None, st = Stream [trace_N], lowcut = Some 2, highcut = Some 8,
         samp_rate = Some 100, filt_order = Some 4, process_length = Some 3600,
         prepick = Some (1 / 2), event = Some (7::nat)\<rparr>"
  have run: "Template_init ''user'' store_0 None (Some [trace_N]) (Some 2) (Some 8) (Some 100)
      (Some 4) (Some 3600) (Some (1 / 2)) (Some 7) = Inr (?t, ?s')"
    by (simp add: Template_init_def rates_mismatch_def trace_N_def attach_marker_def
        marker_text_def temp_name_of_def store_0_def event_0_def)
  have fresh: "marker_text None \<notin> set (map comment_text (comments (store_0 7)))"
    by (simp add: store_0_def event_0_def)
  have c: "comments (store_0 7) = []"
    by (simp add: store_0_def event_0_def)
  from init_mutates_event [OF run fresh] run c show ?thesis by blast
qed

lemma Template_init_store:
  "Template_init user s nm st_arg lc hc sr fo pl pp (Some p) = Inr (t, s') \<Longrightarrow>
   s' = s(p := attach_marker user nm (s p))"
  by (auto simp: Template_init_def split: if_splits)

lemma attach_marker_present:
  "marker_text nm \<in> set (map comment_text (comments ev)) \<Longrightarrow> attach_marker user nm ev = ev"
  by (simp add: attach_marker_def)

lemma attach_marker_count:
  "count_list (map comment_text (comments (attach_marker user nm ev))) (marker_text nm) =
   (if marker_text nm \<in> set (map comment_text (comments ev))
    then count_list (map comment_text (comments ev)) (marker_text nm) else 1)"
  by (simp add: attach_marker_def)

lemma attach_calls_present:
  "attach_calls user nm p calls s = Inr s' \<Longrightarrow>
   marker_text nm \<in> set (map comment_text (comments (s p))) \<Longrightarrow> s' = s"
proof (induction calls arbitrary: s)
  case Nil
  then show ?case by simp
next
  case (Cons c calls)
  obtain st_arg lc hc sr fo pl pp where c: "c = (st_arg, lc, hc, sr, fo, pl, pp)"
    by (cases c) auto
  from Cons.prems(1) c obtain t s1 where
    first: "Template_init user s nm st_arg lc hc sr fo pl pp (Some p) = Inr (t, s1)"
    and rest: "attach_calls user nm p calls s1 = Inr s'"
    by (auto split: sum.splits)
  from Template_init_store [OF first] Cons.prems(2) have "s1 = s"
    by (simp add: attach_marker_present)
  with rest Cons.IH [of s] Cons.prems(2) show ?case by simp
qed

text \<open>
  Claim C4. After one or more successful constructions with the same name on the same
  event object, which at first holds the marker comment of that name at most once, the
  event holds it exactly once. A construction on an event that holds the marker already
  appends nothing: the store is unchanged.
\<close>

theorem attach_marker_once:
  assumes "attach_calls user nm p calls s = Inr s'"
    and "calls \<noteq> []"
    and "count_list (map comment_text (comments (s p))) (marker_text nm) \<le> 1"
  shows "count_list (map comment_text (comments (s' p))) (marker_text nm) = 1 \<and>
         (marker_text nm \<in> set (map comment_text (comments (s p))) \<longrightarrow> s' = s)"
proof -
  from assms(2) obtain c calls' where calls: "calls = c # calls'" by (cases calls) auto
  obtain st_arg lc hc sr fo pl pp where c: "c = (st_arg, lc, hc, sr, fo, pl, pp)"
    by (cases c) auto
  from assms(1) calls c obtain t s1 where
    first: "Template_init user s nm st_arg lc hc sr fo pl pp (Some p) = Inr (t, s1)"
    and rest: "attach_calls user nm p calls' s1 = Inr s'"
    by (auto split: sum.splits)
  have s1: "s1 = s(p := attach_marker user nm (s p))"
    by (rule Template_init_store [OF first])
  have one: "count_list (map comment_text (comments (s1 p))) (marker_text nm) = 1"
  proof (cases "marker_text nm \<in> set (map comment_text (comments (s p)))")
    case True
    then have "count_list (map comment_text (comments (s p))) (marker_text nm) \<noteq> 0"
      by (simp add: count_list_0_iff)
    with assms(3) True show ?thesis by (simp add: s1 attach_marker_count)
  next
    case False
    then show ?thesis by (simp add: s1 attach_marker_count)
  qed
  then have "marker_text nm \<in> set (map comment_text (comments (s1 p)))"
    by (metis count_list_0_iff zero_neq_one)
  from attach_calls_present [OF rest this] have "s' = s1" .
  with one attach_calls_present [OF assms(1)] show ?thesis by blast
qed

theorem attach_marker_once_witness:
  "attach_calls ''user'' (Some ''A'') 7
     [(None, None, None, None, None, None, None),
      (Some [trace_N], Some 2, Some 8, Some 100, Some 4, Some 3600, Some (1 / 2)),
      (None, Some 2, Some 8, None, Some 4, None, None)] store_0 =
   Inr (store_0 (7 := event_0\<lparr>comments :=
          [\<lparr>comment_text = ''eqcorrscan_template_A'',
            comment_creation_info = Some \<lparr>agency = ''eqcorrscan'', author = ''user''\<rparr>\<rparr>]\<rparr>)) \<and>
   count_list (map comment_text (comments (store_0 7))) (marker_text (Some ''A'')) = 0 \<and>
   count_list (map comment_text (comments
      ((store_0 (7 := event_0\<lparr>comments :=
          [\<lparr>comment_text = ''eqcorrscan_template_A'',
            comment_creation_info = Some \<lparr>agency = ''eqcorrscan'', author = ''user''\<rparr>\<rparr>]\<rparr>)) 7)))
      (marker_text (Some ''A'')) = 1"
proof -
  let ?calls = "[(None, None, None, None, None, None, None),
      (Some [trace_N], Some 2, Some 8, Some 100, Some 4, Some 3600, Some (1 / 2)),
      (None, Some 2, Some 8, None, Some 4, None, None)]"
  let ?s' = "store_0 (7 := event_0\<lparr>comments :=
          [\<lparr>comment_text = ''eqcorrscan_template_A'',
            comment_creation_info = Some \<lparr>agency = ''eqcorrscan'', author = ''user''\<rparr>\<rparr>]\<rparr>)"
  have run: "attach_calls ''user'' (Some ''A'') 7 ?calls store_0 = Inr ?s'"
    by (simp add: Template_init_def rates_mismatch_def trace_N_def attach_marker_def
        marker_text_def temp_name_of_def store_0_def event_0_def name_regex_match_def
        name_char_def)
  have ne: "?calls \<noteq> []" by simp
  have zero: "count_list (map comment_text (comments (store_0 7))) (marker_text (Some ''A'')) = 0"
    by (simp add: store_0_def event_0_def)
  then have le: "count_list (map comment_text (comments (store_0 7))) (marker_text (Some ''A'')) \<le> 1"
    by simp
  from attach_marker_once [OF run ne le] run zero show ?thesis by blast
qed

text \<open>
  Claim C5. The claim: every constructing call, \<^verbatim>\<open>__init__\<close> and \<^verbatim>\<open>construct\<close> alike,
  raises for a name that fails the regular expression. The code at such an input:
  \<^verbatim>\<open>Template().construct(method='from_sac', name='bad name', ...)\<close> assigns the name
  unchecked and returns the template, where \<^verbatim>\<open>__init__\<close> raises \<^verbatim>\<open>ValueError\<close> for the
  same name.
\<close>

theorem construct_keeps_invalid_name:
  "construct (\<lambda>tr. False) (Inr ([[trace_N]], [event_0], [300])) empty_template ''from_sac''
     ''bad name'' (Some 2) (Some 8) (Some 100) (Some 4) (Some (1 / 10)) =
   (\<lparr>name = Some ''bad name'', st = Stream [trace_N], lowcut = Some 2, highcut = Some 8,
     samp_rate = Some 100, filt_order = Some 4, process_length = Some 300,
     prepick = Some (1 / 10), event = Some event_0\<rparr>, None) \<and>
   \<not> name_regex_match ''bad name'' \<and>
   Template_init ''user'' store_0 (Some ''bad name'') (Some [trace_N]) (Some 2) (Some 8)
     (Some 100) (Some 4) (Some 300) (Some (1 / 10)) None = Inl ValueError"
  by (simp add: construct_def empty_template_def remove_zero_traces_def name_regex_match_def
      name_char_def Template_init_def)

section \<open>The groups that \<open>group_templates\<close> builds\<close>

lemma remove_empty_groups_id: "[] \<notin> set gs \<Longrightarrow> remove_empty_groups i gs = gs"
proof (induction i gs rule: remove_empty_groups.induct)
  case (1 i gs)
  show ?case
  proof (cases "i < length gs")
    case True
    then have "gs ! i \<in> set gs" by simp
    with "1.prems" have ne: "length (gs ! i) \<noteq> 0" by auto
    with True "1.IH"(2) "1.prems" show ?thesis
      by (subst remove_empty_groups.simps) simp
  next
    case False
    then show ?thesis by (subst remove_empty_groups.simps) simp
  qed
qed

lemma new_group_keys: "x \<in> set (new_group ts m) \<Longrightarrow> processing_key x = processing_key m"
  by (auto simp: new_group_def same_processing_key)

lemma template_in_new_group:
  assumes "m \<in> set ts"
  shows "template_in m (new_group ts r) = (processing_key m = processing_key r)"
proof
  assume "template_in m (new_group ts r)"
  then obtain e where e: "e \<in> set (new_group ts r)" "eq_template m e"
    by (auto simp: template_in_def list_ex_iff)
  from e(2) have "processing_key m = processing_key e"
    using eq_template_same_processing same_processing_key by blast
  with e(1) show "processing_key m = processing_key r"
    by (simp add: new_group_keys)
next
  assume k: "processing_key m = processing_key r"
  show "template_in m (new_group ts r)"
  proof (cases "eq_template r m")
    case True
    then have "eq_template m r" by (simp add: eq_template_sym)
    then show ?thesis by (simp add: template_in_def new_group_def)
  next
    case False
    with k assms have "m \<in> set (new_group ts r)"
      by (simp add: new_group_def same_processing_key ne_template_def)
    then show ?thesis
      using eq_template_refl by (auto simp: template_in_def list_ex_iff)
  qed
qed

lemma in_some_group_keys:
  assumes "m \<in> set ts"
  shows "in_some_group m (map (new_group ts) reps) = (processing_key m \<in> processing_key ` set reps)"
  using assms by (auto simp: in_some_group_def list_ex_iff template_in_new_group)

lemma group_loop_masters:
  "set ms \<subseteq> set ts \<Longrightarrow>
   group_loop ts ms (map (new_group ts) reps) =
   map (new_group ts) (reps @ first_of_class (processing_key ` set reps) ms)"
proof (induction ms arbitrary: reps)
  case Nil
  then show ?case by simp
next
  case (Cons m ms)
  then have m: "m \<in> set ts" and ms: "set ms \<subseteq> set ts" by auto
  show ?case
  proof (cases "processing_key m \<in> processing_key ` set reps")
    case True
    with Cons.IH [OF ms, of reps] m show ?thesis
      by (simp add: in_some_group_keys)
  next
    case False
    have "group_loop ts (m # ms) (map (new_group ts) reps) =
          group_loop ts ms (map (new_group ts) (reps @ [m]))"
      using False m by (simp add: in_some_group_keys)
    also have "\<dots> = map (new_group ts) ((reps @ [m]) @
                 first_of_class (processing_key ` set (reps @ [m])) ms)"
      by (rule Cons.IH [OF ms])
    finally show ?thesis using False by simp
  qed
qed

lemma new_group_not_Nil: "new_group ts m \<noteq> []"
  by (simp add: new_group_def)

text \<open>
  The result of \<open>group_templates\<close>: one group for the first template of every processing
  class, in the order of the input.
\<close>

lemma group_templates_masters: "group_templates ts = map (new_group ts) (masters ts)"
proof -
  have "group_loop ts ts [] = map (new_group ts) (masters ts)"
    using group_loop_masters [of ts ts "[]"] by (simp add: masters_def)
  moreover have "[] \<notin> set (map (new_group ts) (masters ts))"
  proof
    assume "[] \<in> set (map (new_group ts) (masters ts))"
    then obtain m where "[] = new_group ts m" by auto
    then show False by (simp add: new_group_def)
  qed
  ultimately show ?thesis
    by (simp add: group_templates_def remove_empty_groups_id)
qed

lemma group_templates_Nil: "group_templates [] = []"
  by (simp add: group_templates_masters masters_def)

lemma first_of_class_keys:
  "processing_key ` set (first_of_class seen ms) = processing_key ` set ms - seen"
  by (induction ms arbitrary: seen) auto

lemma first_of_class_subset: "set (first_of_class seen ms) \<subseteq> set ms"
  by (induction ms arbitrary: seen) auto

lemma first_of_class_distinct: "distinct (map processing_key (first_of_class seen ms))"
proof (induction ms arbitrary: seen)
  case Nil
  then show ?case by simp
next
  case (Cons m ms)
  have "processing_key m \<notin> processing_key ` set (first_of_class (insert (processing_key m) seen) ms)"
    by (simp add: first_of_class_keys)
  with Cons show ?case by simp
qed

lemma first_of_class_subseq: "subseq (first_of_class seen ms) ms"
  by (induction ms arbitrary: seen) auto

lemma first_of_class_first:
  "m \<in> set (first_of_class seen ms) \<Longrightarrow>
   \<exists>pre post. ms = pre @ m # post \<and> processing_key m \<notin> processing_key ` set pre \<and>
     processing_key m \<notin> seen"
proof (induction ms arbitrary: seen)
  case Nil
  then show ?case by simp
next
  case (Cons x ms)
  show ?case
  proof (cases "processing_key x \<in> seen")
    case True
    with Cons.prems have "m \<in> set (first_of_class seen ms)" by simp
    from Cons.IH [OF this] obtain pre post where
      p: "ms = pre @ m # post" "processing_key m \<notin> processing_key ` set pre"
         "processing_key m \<notin> seen" by blast
    from p True have "x # ms = (x # pre) @ m # post \<and>
        processing_key m \<notin> processing_key ` set (x # pre) \<and> processing_key m \<notin> seen"
      by auto
    then show ?thesis by blast
  next
    case False
    show ?thesis
    proof (cases "m = x")
      case True
      with False have "x # ms = [] @ m # ms \<and>
        processing_key m \<notin> processing_key ` set [] \<and> processing_key m \<notin> seen"
        by simp
      then show ?thesis by blast
    next
      case neq: False
      with False Cons.prems
      have "m \<in> set (first_of_class (insert (processing_key x) seen) ms)" by simp
      from Cons.IH [OF this] obtain pre post where
        p: "ms = pre @ m # post" "processing_key m \<notin> processing_key ` set pre"
           "processing_key m \<notin> insert (processing_key x) seen" by blast
      then have "x # ms = (x # pre) @ m # post \<and>
        processing_key m \<notin> processing_key ` set (x # pre) \<and> processing_key m \<notin> seen"
        by auto
      then show ?thesis by blast
    qed
  qed
qed

lemma first_of_class_skip:
  "processing_key ` set xs \<subseteq> seen \<Longrightarrow> first_of_class seen (xs @ rest) = first_of_class seen rest"
  by (induction xs) auto

lemma first_of_class_member:
  "processing_key a \<notin> processing_key ` set pre \<Longrightarrow> processing_key a \<notin> seen \<Longrightarrow>
   a \<in> set (first_of_class seen (pre @ a # post))"
  by (induction pre arbitrary: seen) auto

lemma first_of_class_concat:
  assumes "distinct (map processing_key reps)"
    and "processing_key ` set reps \<inter> seen = {}"
    and "\<And>r. r \<in> set reps \<Longrightarrow> \<exists>xs. f r = r # xs \<and> processing_key ` set xs \<subseteq> {processing_key r}"
  shows "first_of_class seen (concat (map f reps)) = reps"
  using assms
proof (induction reps arbitrary: seen)
  case Nil
  then show ?case by simp
next
  case (Cons r reps)
  from Cons.prems(3) [of r] obtain xs where
    f: "f r = r # xs" "processing_key ` set xs \<subseteq> {processing_key r}" by auto
  from Cons.prems(2) have notin: "processing_key r \<notin> seen" by auto
  have skip: "first_of_class (insert (processing_key r) seen) (xs @ concat (map f reps)) =
        first_of_class (insert (processing_key r) seen) (concat (map f reps))"
    using f(2) by (intro first_of_class_skip) auto
  have "first_of_class (insert (processing_key r) seen) (concat (map f reps)) = reps"
  proof (rule Cons.IH)
    show "distinct (map processing_key reps)" using Cons.prems(1) by simp
    show "processing_key ` set reps \<inter> insert (processing_key r) seen = {}"
      using Cons.prems(1,2) by auto
    show "\<And>r'. r' \<in> set reps \<Longrightarrow>
        \<exists>xs. f r' = r' # xs \<and> processing_key ` set xs \<subseteq> {processing_key r'}"
      using Cons.prems(3) by simp
  qed
  with skip f(1) notin show ?case by simp
qed

lemma masters_distinct: "distinct (map processing_key (masters ts))"
  by (simp add: masters_def first_of_class_distinct)

lemma masters_keys: "processing_key ` set (masters ts) = processing_key ` set ts"
  by (simp add: masters_def first_of_class_keys)

lemma masters_member:
  assumes "i < length ts" and "\<forall>k<i. \<not> same_processing (ts ! k) (ts ! i)"
  shows "ts ! i \<in> set (masters ts)"
proof -
  have split: "ts = take i ts @ ts ! i # drop (Suc i) ts"
    using assms(1) by (rule id_take_nth_drop)
  have "processing_key (ts ! i) \<notin> processing_key ` set (take i ts)"
  proof
    assume "processing_key (ts ! i) \<in> processing_key ` set (take i ts)"
    then obtain x where x: "x \<in> set (take i ts)" "processing_key (ts ! i) = processing_key x"
      by auto
    from x(1) obtain k where "k < length (take i ts)" "take i ts ! k = x"
      by (auto simp: in_set_conv_nth)
    then have "k < i" "ts ! k = x" by simp_all
    with assms(2) x(2) show False by (auto simp: same_processing_key)
  qed
  then have "ts ! i \<in> set (first_of_class {} (take i ts @ ts ! i # drop (Suc i) ts))"
    by (rule first_of_class_member) simp
  with split show ?thesis by (simp add: masters_def)
qed

lemma length_masters: "length (masters ts) = card (processing_key ` set ts)"
proof -
  have "card (set (map processing_key (masters ts))) = length (map processing_key (masters ts))"
    by (rule distinct_card [OF masters_distinct])
  then show ?thesis by (simp add: masters_keys)
qed

lemma card_classes:
  "card ((\<lambda>t. {u \<in> set ts. same_processing t u}) ` set ts) = card (processing_key ` set ts)"
proof -
  let ?h = "\<lambda>k. {u \<in> set ts. processing_key u = k}"
  have "(\<lambda>t. {u \<in> set ts. same_processing t u}) ` set ts =
        (\<lambda>t. ?h (processing_key t)) ` set ts"
    by (rule image_cong) (auto simp: same_processing_key)
  then have "(\<lambda>t. {u \<in> set ts. same_processing t u}) ` set ts = ?h ` (processing_key ` set ts)"
    by (simp only: image_image)
  moreover have "inj_on ?h (processing_key ` set ts)"
  proof (rule inj_onI)
    fix k1 k2
    assume k1: "k1 \<in> processing_key ` set ts" and "k2 \<in> processing_key ` set ts"
      and eq: "?h k1 = ?h k2"
    from k1 obtain t where t: "t \<in> set ts" "processing_key t = k1" by auto
    then have "t \<in> ?h k1" by simp
    with eq have "t \<in> ?h k2" by simp
    with t show "k1 = k2" by simp
  qed
  ultimately show ?thesis by (simp add: card_image)
qed

lemma hd_groups: "map hd (group_templates ts) = masters ts"
  by (simp add: group_templates_masters new_group_def comp_def)

lemma new_group_shape:
  "\<exists>xs. new_group ts r = r # xs \<and> processing_key ` set xs \<subseteq> {processing_key r}"
  by (auto simp: new_group_def same_processing_key)

lemma masters_regroup: "masters (concat (map (new_group ts) (masters ts))) = masters ts"
  unfolding masters_def [of "concat (map (new_group ts) (masters ts))"]
  by (rule first_of_class_concat) (simp_all add: masters_distinct new_group_shape)

lemma new_group_slave_of: "new_group ts m = m # filter (slave_of m) ts"
  by (simp add: new_group_def slave_of_def [abs_def])

lemma slave_of_self: "\<not> slave_of m m"
  by (simp add: slave_of_def ne_template_def eq_template_refl)

lemma slave_of_key: "slave_of m s \<Longrightarrow> processing_key s = processing_key m"
  by (simp add: slave_of_def same_processing_key)

lemma filter_slaves_other:
  "processing_key r \<noteq> processing_key m \<Longrightarrow> filter (slave_of m) (new_group ts r) = []"
  by (auto simp: new_group_slave_of filter_empty_conv dest!: slave_of_key)

lemma filter_slaves_own:
  "filter (slave_of m) (new_group ts m) = filter (slave_of m) ts"
  by (simp add: new_group_slave_of slave_of_self)

lemma filter_slaves_concat:
  assumes "distinct (map processing_key reps)" and "m \<in> set reps"
  shows "filter (slave_of m) (concat (map (new_group ts) reps)) = filter (slave_of m) ts"
  using assms
proof (induction reps)
  case Nil
  then show ?case by simp
next
  case (Cons r reps)
  show ?case
  proof (cases "r = m")
    case True
    have "processing_key m \<notin> processing_key ` set reps"
      using Cons.prems(1) True by simp
    then have "processing_key r' \<noteq> processing_key m" if "r' \<in> set reps" for r'
      using that by (metis imageI)
    then have "filter (slave_of m) (concat (map (new_group ts) reps)) = []"
      by (induction reps) (simp_all add: filter_slaves_other)
    with True show ?thesis by (simp add: filter_slaves_own)
  next
    case False
    with Cons.prems have m: "m \<in> set reps" and "processing_key r \<noteq> processing_key m"
      by auto
    with Cons show ?thesis by (simp add: filter_slaves_other)
  qed
qed

text \<open>
  Claim C8. Grouping is idempotent on its own output: for every list of templates,
  \<open>group_templates\<close> applied to the concatenation of the groups that \<open>group_templates\<close>
  returned gives the same list of groups again, each with the same members in the same
  order.
\<close>

theorem group_templates_idem:
  "group_templates (concat (group_templates ts)) = group_templates ts"
proof -
  let ?G = "map (new_group ts) (masters ts)"
  have "group_templates (concat ?G) = map (new_group (concat ?G)) (masters (concat ?G))"
    by (rule group_templates_masters)
  also have "\<dots> = map (new_group (concat ?G)) (masters ts)"
    by (simp only: masters_regroup)
  also have "\<dots> = map (new_group ts) (masters ts)"
  proof (rule map_cong [OF refl])
    fix m assume "m \<in> set (masters ts)"
    then show "new_group (concat ?G) m = new_group ts m"
      by (simp add: new_group_slave_of filter_slaves_concat masters_distinct)
  qed
  finally show ?thesis by (simp add: group_templates_masters)
qed

lemma pairwise_ne_unique:
  "sorted_wrt (\<lambda>a b. \<not> eq_template a b) ts \<Longrightarrow> a \<in> set ts \<Longrightarrow> b \<in> set ts \<Longrightarrow>
   eq_template a b \<Longrightarrow> a = b"
proof (induction ts)
  case Nil
  then show ?case by simp
next
  case (Cons t ts)
  from Cons.prems(1) have rest: "sorted_wrt (\<lambda>a b. \<not> eq_template a b) ts"
    and hd: "\<And>u. u \<in> set ts \<Longrightarrow> \<not> eq_template t u" by auto
  from hd have hd': "\<And>u. u \<in> set ts \<Longrightarrow> \<not> eq_template u t"
    by (simp add: eq_template_sym)
  from Cons.prems(2,3,4) hd hd' Cons.IH [OF rest] show ?case by auto
qed

lemma pairwise_ne_distinct:
  "sorted_wrt (\<lambda>a b. \<not> eq_template a b) ts \<Longrightarrow> distinct ts"
  by (induction ts) (auto simp: eq_template_refl)

lemma new_group_filter:
  assumes D: "sorted_wrt (\<lambda>a b. \<not> eq_template a b) ts"
    and m: "m \<in> set (masters ts)"
  shows "new_group ts m = filter (same_processing m) ts"
proof -
  from m obtain pre post where
    ts: "ts = pre @ m # post" and pre: "processing_key m \<notin> processing_key ` set pre"
    unfolding masters_def by (blast dest: first_of_class_first)
  have dist: "distinct ts" by (rule pairwise_ne_distinct [OF D])
  with ts have notin: "m \<notin> set pre" "m \<notin> set post" by auto
  have mem: "m \<in> set ts" using ts by simp
  have slave: "slave_of m s = (same_processing m s \<and> s \<noteq> m)" if "s \<in> set ts" for s
    using pairwise_ne_unique [OF D mem that] eq_template_refl [of m]
    by (auto simp: slave_of_def ne_template_def)
  have pre_none: "filter (same_processing m) pre = []"
    using pre by (auto simp: filter_empty_conv same_processing_key)
  have "filter (slave_of m) ts = filter (\<lambda>s. same_processing m s \<and> s \<noteq> m) ts"
    by (rule filter_cong [OF refl]) (rule slave)
  also have "\<dots> = filter (\<lambda>s. same_processing m s \<and> s \<noteq> m) pre @
                   filter (\<lambda>s. same_processing m s \<and> s \<noteq> m) post"
    by (subst ts) simp
  also have "filter (\<lambda>s. same_processing m s \<and> s \<noteq> m) pre = []"
    using pre by (auto simp: filter_empty_conv same_processing_key)
  also have "filter (\<lambda>s. same_processing m s \<and> s \<noteq> m) post = filter (same_processing m) post"
    using notin(2) by (intro filter_cong) auto
  finally have "new_group ts m = m # filter (same_processing m) post"
    by (simp add: new_group_slave_of)
  moreover have "filter (same_processing m) ts = m # filter (same_processing m) post"
    by (subst ts) (simp add: pre_none same_processing_refl)
  ultimately show ?thesis by simp
qed

lemma mset_filter_disjoint:
  "(\<And>x. x \<in> set xs \<Longrightarrow> \<not> (P x \<and> Q x)) \<Longrightarrow>
   mset (filter P xs) + mset (filter Q xs) = mset (filter (\<lambda>x. P x \<or> Q x) xs)"
  by (induction xs) auto

lemma mset_concat_classes:
  "distinct ks \<Longrightarrow>
   mset (concat (map (\<lambda>k. filter (\<lambda>t. f t = k) ts) ks)) = mset (filter (\<lambda>t. f t \<in> set ks) ts)"
proof (induction ks)
  case Nil
  then show ?case by simp
next
  case (Cons k ks)
  then have "mset (concat (map (\<lambda>k. filter (\<lambda>t. f t = k) ts) (k # ks))) =
      mset (filter (\<lambda>t. f t = k) ts) + mset (filter (\<lambda>t. f t \<in> set ks) ts)"
    by simp
  also have "\<dots> = mset (filter (\<lambda>t. f t = k \<or> f t \<in> set ks) ts)"
    using Cons.prems by (intro mset_filter_disjoint) auto
  finally show ?case by (simp add: disj_commute eq_commute)
qed

lemma groups_within:
  "g \<in> set (group_templates ts) \<Longrightarrow> a \<in> set g \<Longrightarrow> b \<in> set g \<Longrightarrow> same_processing a b"
  by (auto simp: group_templates_masters same_processing_key dest!: new_group_keys)

lemma groups_across:
  assumes "i < j" "j < length (group_templates ts)"
    and "a \<in> set (group_templates ts ! i)" "b \<in> set (group_templates ts ! j)"
  shows "\<not> same_processing a b"
proof -
  from assms(1,2) have len: "i < length (masters ts)" "j < length (masters ts)"
    by (simp_all add: group_templates_masters)
  with assms(3,4) have keys: "processing_key a = processing_key (masters ts ! i)"
      "processing_key b = processing_key (masters ts ! j)"
    by (simp_all add: group_templates_masters new_group_keys)
  have "map processing_key (masters ts) ! i \<noteq> map processing_key (masters ts) ! j"
    using masters_distinct [of ts] len assms(1)
      nth_eq_iff_index_eq [of "map processing_key (masters ts)" i j] by simp
  with len keys show ?thesis by (simp add: same_processing_key)
qed

lemma groups_mset:
  assumes D: "sorted_wrt (\<lambda>a b. \<not> eq_template a b) ts"
  shows "mset (concat (group_templates ts)) = mset ts"
proof -
  have "map (new_group ts) (masters ts) = map (\<lambda>m. filter (same_processing m) ts) (masters ts)"
    by (rule map_cong [OF refl]) (rule new_group_filter [OF D])
  also have "\<dots> = map (\<lambda>k. filter (\<lambda>t. processing_key t = k) ts)
                     (map processing_key (masters ts))"
    by (simp add: same_processing_fun comp_def eq_commute)
  finally have "mset (concat (group_templates ts)) =
      mset (filter (\<lambda>t. processing_key t \<in> set (map processing_key (masters ts))) ts)"
    by (simp only: group_templates_masters mset_concat_classes [OF masters_distinct])
  also have "\<dots> = mset ts"
    by (simp add: masters_keys)
  finally show ?thesis .
qed

text \<open>
  Claim C1. Let the templates of the input be pairwise unequal under \<open>eq_template\<close>
  (\<open>sorted_wrt R\<close> says that \<open>R\<close> holds for every two elements in the order of the list).
  Then \<open>group_templates\<close> returns as many groups as the templates have classes of same
  processing; no group is empty; the groups together hold the templates of the input, each
  in exactly one group; any two templates of one group have the same processing, and no two
  templates of two different groups have; the first templates of the groups (the masters)
  come in the order of the input; and each group is the input restricted to the templates
  with the processing of its first template, in the order of the input, so that its master is
  the first template of its class. For the empty input the result is the empty list.
\<close>

theorem group_templates_partition:
  assumes "sorted_wrt (\<lambda>a b. \<not> eq_template a b) templates"
  shows "length (group_templates templates) =
           card ((\<lambda>t. {u \<in> set templates. same_processing t u}) ` set templates) \<and>
         [] \<notin> set (group_templates templates) \<and>
         mset (concat (group_templates templates)) = mset templates \<and>
         (\<forall>t \<in> set templates.
            \<exists>!i. i < length (group_templates templates) \<and> t \<in> set (group_templates templates ! i)) \<and>
         (\<forall>g \<in> set (group_templates templates). \<forall>a \<in> set g. \<forall>b \<in> set g. same_processing a b) \<and>
         (\<forall>i j. i < j \<and> j < length (group_templates templates) \<longrightarrow>
            (\<forall>a \<in> set (group_templates templates ! i).
               \<forall>b \<in> set (group_templates templates ! j). \<not> same_processing a b)) \<and>
         subseq (map hd (group_templates templates)) templates \<and>
         (\<forall>g \<in> set (group_templates templates). g = filter (same_processing (hd g)) templates) \<and>
         group_templates [] = []"
proof -
  let ?G = "group_templates templates"
  have count: "length ?G = card ((\<lambda>t. {u \<in> set templates. same_processing t u}) ` set templates)"
    by (simp add: group_templates_masters length_masters card_classes)
  have nonempty: "[] \<notin> set ?G"
  proof
    assume "[] \<in> set ?G"
    then obtain m where "[] = new_group templates m"
      by (auto simp: group_templates_masters)
    then show False by (simp add: new_group_def)
  qed
  have part: "mset (concat ?G) = mset templates"
    by (rule groups_mset [OF assms])
  have across: "\<not> same_processing a b"
    if "i < j" "j < length ?G" "a \<in> set (?G ! i)" "b \<in> set (?G ! j)" for i j a b
    using that by (rule groups_across)
  have once: "\<exists>!i. i < length ?G \<and> t \<in> set (?G ! i)" if t: "t \<in> set templates" for t
  proof -
    from t part have "t \<in> set (concat ?G)"
      by (metis mset_eq_setD)
    then obtain g where "g \<in> set ?G" "t \<in> set g" by auto
    then obtain i where i: "i < length ?G" "t \<in> set (?G ! i)"
      by (auto simp: in_set_conv_nth)
    have "j = i" if j: "j < length ?G" "t \<in> set (?G ! j)" for j
    proof (rule ccontr)
      assume "j \<noteq> i"
      then consider "i < j" | "j < i" by linarith
      then show False
      proof cases
        case 1
        from across [OF 1 j(1) i(2) j(2)] show False by (simp add: same_processing_refl)
      next
        case 2
        from across [OF 2 i(1) j(2) i(2)] show False by (simp add: same_processing_refl)
      qed
    qed
    with i show ?thesis by blast
  qed
  have within: "same_processing a b" if "g \<in> set ?G" "a \<in> set g" "b \<in> set g" for g a b
    using that by (rule groups_within)
  have order: "subseq (map hd ?G) templates"
    by (simp add: hd_groups masters_def first_of_class_subseq)
  have inorder: "g = filter (same_processing (hd g)) templates" if "g \<in> set ?G" for g
  proof -
    from that obtain m where m: "m \<in> set (masters templates)" "g = new_group templates m"
      by (auto simp: group_templates_masters)
    then have "hd g = m" by (simp add: new_group_def)
    with m new_group_filter [OF assms m(1)] show ?thesis by simp
  qed
  from count nonempty part once within across order inorder group_templates_Nil
  show ?thesis by blast
qed

text \<open>
The spec's example: \<open>group([A, B, C])\<close> is \<open>[[A, B], [C]]\<close>.
\<close>

theorem group_templates_partition_witness:
  "sorted_wrt (\<lambda>a b. \<not> eq_template a b) [template_A, template_B, template_C] \<and>
   group_templates [template_A, template_B, template_C] = [[template_A, template_B], [template_C]] \<and>
   mset (concat (group_templates [template_A, template_B, template_C])) =
     mset [template_A, template_B, template_C] \<and>
   subseq (map hd (group_templates [template_A, template_B, template_C]))
     [template_A, template_B, template_C]"
proof -
  have h: "sorted_wrt (\<lambda>a b. \<not> eq_template a b) [template_A, template_B, template_C]"
    by (simp add: eq_template_def template_A_def template_B_def template_C_def)
  have g: "group_templates [template_A, template_B, template_C] =
      [[template_A, template_B], [template_C]]"
    by code_simp
  from group_templates_partition [OF h] h g show ?thesis by blast
qed

lemma count_other_groups:
  assumes "processing_key x \<notin> processing_key ` set reps"
  shows "count_list (concat (map (new_group ts) reps)) x = 0"
proof -
  have "x \<notin> set (concat (map (new_group ts) reps))"
  proof
    assume "x \<in> set (concat (map (new_group ts) reps))"
    then obtain r where "r \<in> set reps" "x \<in> set (new_group ts r)" by auto
    then have "processing_key x = processing_key r" "r \<in> set reps"
      by (simp_all add: new_group_keys)
    with assms show False by (metis imageI)
  qed
  then show ?thesis by (simp add: count_list_0_iff)
qed

lemma count_in_groups:
  assumes "distinct (map processing_key reps)" and "a \<in> set reps"
    and "processing_key x = processing_key a"
  shows "count_list (concat (map (new_group ts) reps)) x = count_list (new_group ts a) x"
  using assms(1,2)
proof (induction reps)
  case Nil
  then show ?case by simp
next
  case (Cons r reps)
  show ?case
  proof (cases "r = a")
    case True
    with Cons.prems(1) assms(3) have "processing_key x \<notin> processing_key ` set reps" by simp
    then have "count_list (concat (map (new_group ts) reps)) x = 0"
      by (rule count_other_groups)
    with True show ?thesis by simp
  next
    case False
    with Cons.prems have a: "a \<in> set reps" and d: "distinct (map processing_key reps)"
      and "processing_key r \<noteq> processing_key a" by auto
    with assms(3) have "x \<notin> set (new_group ts r)"
      by (metis new_group_keys)
    then have "count_list (new_group ts r) x = 0" by (simp add: count_list_0_iff)
    with Cons.IH [OF d a] show ?thesis by simp
  qed
qed

lemma count_list_twice:
  assumes "i < j" "j < length xs" "xs ! i = x" "xs ! j = x"
  shows "2 \<le> count_list xs x"
proof -
  have split: "xs = take j xs @ xs ! j # drop (Suc j) xs"
    using assms(2) by (rule id_take_nth_drop)
  have "take j xs ! i = x" using assms(1,3) by simp
  moreover have "i < length (take j xs)" using assms(1,2) by simp
  ultimately have "x \<in> set (take j xs)" by (metis nth_mem)
  then have "1 \<le> count_list (take j xs) x"
    by (metis count_list_0_iff not_less_eq_eq le_0_eq One_nat_def)
  moreover have "count_list xs x =
      count_list (take j xs) x + count_list (xs ! j # drop (Suc j) xs) x"
    by (subst split) (simp only: count_list_append)
  ultimately show ?thesis using assms(4) by simp
qed

text \<open>
  Claim C9, as amended. Let the input hold two equal templates, at the positions \<open>i < j\<close>,
  and let the earlier one be the first template of its processing class, so that it is the
  master of its group. Then the later one is added to no group: the groups hold fewer copies
  of it than the input does, and the output is not a partition of the input.
\<close>

theorem duplicate_of_master_dropped:
  assumes "i < j" and "j < length templates"
    and "eq_template (templates ! i) (templates ! j)"
    and "\<forall>k<i. \<not> same_processing (templates ! k) (templates ! i)"
  shows "count_list (concat (group_templates templates)) (templates ! j) <
           count_list templates (templates ! j) \<and>
         mset (concat (group_templates templates)) \<noteq> mset templates"
proof -
  let ?a = "templates ! i" and ?d = "templates ! j"
  from assms(1,2) have i: "i < length templates" by simp
  have master: "?a \<in> set (masters templates)"
    by (rule masters_member [OF i assms(4)])
  have key: "processing_key ?d = processing_key ?a"
    using eq_template_same_processing [OF assms(3)] by (simp add: same_processing_key)
  have "\<not> slave_of ?a ?d"
    using assms(3) by (simp add: slave_of_def ne_template_def)
  then have "?d \<notin> set (filter (slave_of ?a) templates)" by simp
  then have slaves: "count_list (filter (slave_of ?a) templates) ?d = 0"
    by (simp add: count_list_0_iff)
  have "count_list (concat (group_templates templates)) ?d = count_list (new_group templates ?a) ?d"
    unfolding group_templates_masters
    by (rule count_in_groups [OF masters_distinct master key])
  also have "\<dots> = (if ?a = ?d then 1 else 0)"
    unfolding new_group_slave_of using slaves by (cases "?a = ?d") simp_all
  finally have out: "count_list (concat (group_templates templates)) ?d = (if ?a = ?d then 1 else 0)" .
  have less: "count_list (concat (group_templates templates)) ?d < count_list templates ?d"
  proof (cases "?a = ?d")
    case True
    from count_list_twice [OF assms(1,2) True refl] out True show ?thesis by simp
  next
    case False
    have "?d \<in> set templates" using assms(2) by simp
    then have "count_list templates ?d \<noteq> 0" by (simp add: count_list_0_iff)
    with out False show ?thesis by simp
  qed
  moreover have "mset (concat (group_templates templates)) \<noteq> mset templates"
  proof
    assume "mset (concat (group_templates templates)) = mset templates"
    then have "count (mset (concat (group_templates templates))) ?d = count (mset templates) ?d"
      by simp
    with less show False by (simp add: count_mset)
  qed
  ultimately show ?thesis by blast
qed

theorem duplicate_of_master_dropped_witness:
  "eq_template ([template_A, template_B, template_A] ! 0) ([template_A, template_B, template_A] ! 2) \<and>
   group_templates [template_A, template_B, template_A] = [[template_A, template_B]] \<and>
   count_list (concat (group_templates [template_A, template_B, template_A]))
       ([template_A, template_B, template_A] ! 2) <
     count_list [template_A, template_B, template_A] ([template_A, template_B, template_A] ! 2)"
proof -
  let ?ts = "[template_A, template_B, template_A]"
  have e: "eq_template (?ts ! 0) (?ts ! 2)" by (simp add: eq_template_refl)
  have f: "\<forall>k<0. \<not> same_processing (?ts ! k) (?ts ! 0)" by simp
  have g: "group_templates ?ts = [[template_A, template_B]]" by code_simp
  from duplicate_of_master_dropped [of 0 2 ?ts, OF _ _ e f] e g show ?thesis by simp
qed

text \<open>
  Claim C9 as stated fails when the two equal templates are both slaves of an earlier
  master: of the input \<open>[A, B, B]\<close> the only group is \<open>[A, B, B]\<close>, the later duplicate is
  in it, and the output is a partition of the input.
\<close>

theorem later_duplicate_kept_counterexample:
  "eq_template ([template_A, template_B, template_B] ! 1) ([template_A, template_B, template_B] ! 2) \<and>
   group_templates [template_A, template_B, template_B] = [[template_A, template_B, template_B]] \<and>
   concat (group_templates [template_A, template_B, template_B]) =
     [template_A, template_B, template_B]"
proof -
  have "group_templates [template_A, template_B, template_B] =
      [[template_A, template_B, template_B]]"
    by code_simp
  then show ?thesis by (simp add: eq_template_refl)
qed

end
